theory Spec2Isabelle
  imports Main "HOL-Library.Sublist"
begin

section \<open>Python values shared by all methods of \<open>NovelScraper\<close>\<close>

text \<open>
  Python strings are modelled as \<open>string\<close>, lists of characters; a character stands
  for the code point of its number, so the strings of the model are the Python strings
  over the code points below 256.  \<open>str.lower\<close>, \<open>str.isspace\<close> and the regular
  expression class \<open>\d\<close> are given on all of these.  Exceptions are values of
  \<open>py_error\<close>.
\<close>

datatype py_error = UnboundLocalError | ZeroDivisionError | TypeError | EOFError | OSError

subsection \<open>Characters and strings\<close>

definition LF :: char where "LF = CHR 0x0A"
definition CR :: char where "CR = CHR 0x0D"
definition TAB :: char where "TAB = CHR 0x09"

text \<open>
  \<open>str.lower\<close>: the letters \<open>A\<close>..\<open>Z\<close> and the capital letters \<open>0xC0\<close>..\<open>0xDE\<close>
  (without the multiplication sign \<open>0xD7\<close>) have a small letter; every other code
  point below 256 is left as it is.
\<close>

definition upper_letters :: string where
  "upper_letters =
     ''ABCDEFGHIJKLMNOPQRSTUVWXYZ'' @
     [CHR 0xC0, CHR 0xC1, CHR 0xC2, CHR 0xC3, CHR 0xC4, CHR 0xC5, CHR 0xC6, CHR 0xC7,
      CHR 0xC8, CHR 0xC9, CHR 0xCA, CHR 0xCB, CHR 0xCC, CHR 0xCD, CHR 0xCE, CHR 0xCF,
      CHR 0xD0, CHR 0xD1, CHR 0xD2, CHR 0xD3, CHR 0xD4, CHR 0xD5, CHR 0xD6, CHR 0xD8,
      CHR 0xD9, CHR 0xDA, CHR 0xDB, CHR 0xDC, CHR 0xDD, CHR 0xDE]"

definition lower_letters :: string where
  "lower_letters =
     ''abcdefghijklmnopqrstuvwxyz'' @
     [CHR 0xE0, CHR 0xE1, CHR 0xE2, CHR 0xE3, CHR 0xE4, CHR 0xE5, CHR 0xE6, CHR 0xE7,
      CHR 0xE8, CHR 0xE9, CHR 0xEA, CHR 0xEB, CHR 0xEC, CHR 0xED, CHR 0xEE, CHR 0xEF,
      CHR 0xF0, CHR 0xF1, CHR 0xF2, CHR 0xF3, CHR 0xF4, CHR 0xF5, CHR 0xF6, CHR 0xF8,
      CHR 0xF9, CHR 0xFA, CHR 0xFB, CHR 0xFC, CHR 0xFD, CHR 0xFE]"

definition lower_char :: "char \<Rightarrow> char" where
  "lower_char c =
     (case map_of (zip upper_letters lower_letters) c of
        Some d \<Rightarrow> d
      | None \<Rightarrow> c)"

definition lower :: "string \<Rightarrow> string" where
  "lower s = map lower_char s"

text \<open>
  \<open>str.isspace\<close>, the characters \<open>str.strip()\<close> takes off: tab, line feed, vertical
  tab, form feed, carriage return, the four separators \<open>0x1C\<close>..\<open>0x1F\<close>, the space,
  the next-line character \<open>0x85\<close> and the no-break space \<open>0xA0\<close>.
\<close>

definition is_space :: "char \<Rightarrow> bool" where
  "is_space c =
     (c \<in> set [CHR 0x09, CHR 0x0A, CHR 0x0B, CHR 0x0C, CHR 0x0D,
                CHR 0x1C, CHR 0x1D, CHR 0x1E, CHR 0x1F, CHR 0x20, CHR 0x85, CHR 0xA0])"

definition strip :: "string \<Rightarrow> string" where
  "strip s = dropWhile is_space (rev (dropWhile is_space (rev s)))"

text \<open>\<open>\d\<close> and \<open>int(...)\<close>: below 256 the decimal digits are \<open>0\<close>..\<open>9\<close>.\<close>

definition is_digit :: "char \<Rightarrow> bool" where
  "is_digit c = (c \<in> set ''0123456789'')"

definition digit_val :: "char \<Rightarrow> nat" where
  "digit_val c = of_char c - 48"

definition int_of_digits :: "string \<Rightarrow> nat" where
  "int_of_digits ds = foldl (\<lambda>acc c. 10 * acc + digit_val c) 0 ds"

text \<open>The decimal text of an integer, as an f-string \<open>{n}\<close> prints it.\<close>

definition digit_char :: "nat \<Rightarrow> char" where
  "digit_char d = ''0123456789'' ! d"

fun show_nat :: "nat \<Rightarrow> string" where
  "show_nat n = (if n < 10 then [digit_char n] else show_nat (n div 10) @ [digit_char (n mod 10)])"

declare show_nat.simps [simp del]

definition show_int :: "int \<Rightarrow> string" where
  "show_int i = (if i < 0 then CHR ''-'' # show_nat (nat (- i)) else show_nat (nat i))"

text \<open>\<open>os.path.join(a, b)\<close> on POSIX paths.\<close>

definition path_join :: "string \<Rightarrow> string \<Rightarrow> string" where
  "path_join a b =
     (if b \<noteq> [] \<and> hd b = CHR ''/'' then b
      else if a = [] \<or> last a = CHR ''/'' then a @ b
      else a @ ''/'' @ b)"

subsection \<open>\<open>find_next_chapter_link\<close>\<close>

text \<open>
  The result of \<open>page_soup.find("a", {"id": self.button_tag})\<close> is \<open>None\<close> when no
  anchor carries the id, and otherwise a tag whose \<open>href\<close> attribute may be missing
  (then \<open>next_button.get("href")\<close> is Python's \<open>None\<close> and the membership test raises
  \<open>TypeError\<close>).  Python's \<open>a in b\<close> on strings is \<open>sublist a b\<close>.
\<close>

definition find_next_chapter_link :: "string \<Rightarrow> string option option \<Rightarrow> py_error + string option" where
  "find_next_chapter_link domain_name next_button =
     (case next_button of
        None \<Rightarrow> Inr None
      | Some None \<Rightarrow> Inl TypeError
      | Some (Some next_link) \<Rightarrow>
          if sublist domain_name next_link then Inr (Some next_link)
          else Inr (Some (domain_name @ next_link)))"

section \<open>The scraper object and its environment\<close>

text \<open>
  A fetched page, as far as the scraper looks at it: \<open>next_button\<close> is the result of
  \<open>find("a", {"id": button_tag})\<close> with its \<open>href\<close> (see \<open>find_next_chapter_link\<close>),
  \<open>text_div\<close> is \<open>find("div", {"class": text_tag})\<close>, given by its \<open>prettify()\<close> text.
  A request either raises a transport exception or yields a page.
\<close>

record page =
  next_button :: "string option option"
  text_div :: "string option"

datatype response = Failed | Page page

text \<open>An \<open>EpubHtml\<close> chapter with the attributes the scraper sets.\<close>

record epub_html =
  title :: string
  file_name :: string
  content :: string

text \<open>The calls of \<open>logging\<close>, one constructor per message of the source.\<close>

datatype log_entry =
    NoMoreChapters int
  | FailedToGet string
  | Retrying string int
  | Scraped int string int
  | UnableToScrape int
  | NewUrl string

text \<open>
  The document tree of the markup library: an element has a name, attributes and
  children; every other node is a leaf carrying its text.
\<close>

datatype node = Text string | Elem string "(string \<times> string) list" "node list"

text \<open>
  The three library functions \<open>clean_text\<close> calls and the source does not define:
  \<open>unicodedata.normalize('NFKC', _)\<close>, the parser \<open>BeautifulSoup(_, 'html.parser')\<close>
  and the serialiser \<open>str(_)\<close> of a parsed document.
\<close>

record markup =
  nfkc :: "string \<Rightarrow> string"
  parse :: "string \<Rightarrow> node list"
  render :: "node list \<Rightarrow> string"

text \<open>The attributes fixed by \<open>__init__\<close>.\<close>

record config =
  domain_name :: string
  max_retries :: int
  novel_name :: string
  batch_size :: int
  lib :: markup

text \<open>
  The mutable attributes of the object (\<open>initial_url\<close>, \<open>output_file_path\<close>,
  \<open>chapters\<close>, the items of \<open>epub_book\<close>) and the environment it acts on:
  \<^item> \<open>links_file\<close>: the bytes of \<open>Links.txt\<close>, \<open>None\<close> when the file does not exist;
  \<^item> \<open>out_listing\<close>: \<open>os.listdir(output_file_path)\<close> with \<open>os.path.isdir\<close> of each
    entry, \<open>None\<close> when the path is not a directory;
  \<^item> \<open>stdin\<close>: the lines the operator will type; \<open>console\<close>: what \<open>input\<close> and
    \<open>print\<close> have shown;
  \<^item> \<open>net\<close>: the answer of the web to the first, second, ... request, by the URL
    requested;
  \<^item> \<open>epubs\<close>: the files written by \<open>write_epub\<close>;
  \<^item> \<open>makedirs_raises\<close>, \<open>write_epub_raises\<close>: the exception with which the file
    system refuses the batch directory of \<open>create_epub\<close> or the book, \<open>None\<close> when it
    does not refuse.
\<close>

record world =
  initial_url :: "string option"
  output_file_path :: string
  chapters :: "epub_html list"
  book_items :: "epub_html list"
  links_file :: "string option"
  out_listing :: "(string \<times> bool) list option"
  stdin :: "string list"
  console :: "string list"
  net :: "(string \<Rightarrow> response) list"
  log :: "log_entry list"
  epubs :: "(string \<times> epub_html list) list"
  makedirs_raises :: "py_error option"
  write_epub_raises :: "py_error option"

text \<open>
  How a call ends: it returns a value, raises, or is still inside the \<open>while True\<close>
  loop of \<open>scrape_one_webpage\<close> (at the given URL and retry counter) when the
  scripted answers of the web are used up.
\<close>

datatype 'a outcome = Done 'a | Raise py_error | Pending string int

subsection \<open>\<open>input\<close>\<close>

definition input_line :: "string \<Rightarrow> world \<Rightarrow> (py_error + string) \<times> world" where
  "input_line prompt w =
     (case stdin w of
        [] \<Rightarrow> (Inl EOFError, w\<lparr>console := console w @ [prompt]\<rparr>)
      | l # ls \<Rightarrow> (Inr l, w\<lparr>stdin := ls, console := console w @ [prompt]\<rparr>))"

section \<open>Frontier store\<close>

subsection \<open>Reading the lines of a text file\<close>

text \<open>
  \<open>open(path, 'r')\<close> reads in universal-newlines mode: \<open>\r\n\<close> and a lone \<open>\r\<close>
  arrive as \<open>\n\<close>.  \<open>readlines\<close> cuts after every \<open>\n\<close> and keeps it.
\<close>

fun universal_newlines :: "string \<Rightarrow> string" where
  "universal_newlines [] = []"
| "universal_newlines [a] = (if a = CR then [LF] else [a])"
| "universal_newlines (a # b # cs) =
     (if a = CR \<and> b = LF then LF # universal_newlines cs
      else if a = CR then LF # universal_newlines (b # cs)
      else a # universal_newlines (b # cs))"

fun keep_lines :: "string \<Rightarrow> string \<Rightarrow> string list" where
  "keep_lines cur [] = (if cur = [] then [] else [cur])"
| "keep_lines cur (c # cs) =
     (if c = LF then (cur @ [c]) # keep_lines [] cs else keep_lines (cur @ [c]) cs)"

definition readlines :: "string \<Rightarrow> string list" where
  "readlines raw = keep_lines [] (universal_newlines raw)"

subsection \<open>\<open>write_to_file\<close>\<close>

definition write_to_file :: "string option \<Rightarrow> world \<Rightarrow> world" where
  "write_to_file val w =
     (case val of
        None \<Rightarrow> w
      | Some v \<Rightarrow>
          (case links_file w of
             Some raw \<Rightarrow>
               (let lines = readlines raw in
                if lines \<noteq> [] \<and> strip (last lines) = v then w
                else w\<lparr>links_file := Some (raw @ v @ [LF])\<rparr>)
           | None \<Rightarrow> w\<lparr>links_file := Some (v @ [LF])\<rparr>))"

subsection \<open>\<open>get_url\<close>\<close>

definition get_url :: "world \<Rightarrow> (py_error + string option) \<times> world" where
  "get_url w =
     (case links_file w of
        Some raw \<Rightarrow>
          (let lines = filter (\<lambda>l. l \<noteq> []) (map strip (readlines raw)) in
           if lines \<noteq> [] then (Inr (Some (last lines)), w) else (Inr None, w))
      | None \<Rightarrow>
          (case input_line ''Enter the First URL: '' w of
             (Inl e, w') \<Rightarrow> (Inl e, w')
           | (Inr chapter_url, w') \<Rightarrow>
               (Inr (Some chapter_url), write_to_file (Some chapter_url) w')))"

subsection \<open>\<open>get_last_chapter_scraped\<close>\<close>

text \<open>
  \<open>re.match(r"(\d+)-(\d+)", folder_name)\<close> matches at the start of the name: the longest
  run of digits, a hyphen, the longest run of digits, both runs non-empty; what follows
  is not looked at.
\<close>

definition match_range :: "string \<Rightarrow> (nat \<times> nat) option" where
  "match_range folder_name =
     (let d1 = takeWhile is_digit folder_name; r = dropWhile is_digit folder_name in
      if d1 = [] then None
      else (case r of
              [] \<Rightarrow> None
            | c # r' \<Rightarrow>
                (let d2 = takeWhile is_digit r' in
                 if c = CHR ''-'' \<and> d2 \<noteq> [] then Some (int_of_digits d1, int_of_digits d2)
                 else None)))"

fun scan_folders :: "nat option \<Rightarrow> (string \<times> bool) list \<Rightarrow> nat option" where
  "scan_folders highest_value [] = highest_value"
| "scan_folders highest_value ((folder_name, is_dir) # rest) =
     (case match_range folder_name of
        Some (start, end') \<Rightarrow>
          if is_dir
          then scan_folders (Some (case highest_value of None \<Rightarrow> end' | Some h \<Rightarrow> max h end')) rest
          else scan_folders highest_value rest
      | None \<Rightarrow> scan_folders highest_value rest)"

definition get_last_chapter_scraped :: "world \<Rightarrow> nat option" where
  "get_last_chapter_scraped w =
     (case out_listing w of None \<Rightarrow> None | Some entries \<Rightarrow> scan_folders None entries)"

text \<open>The first lines of \<open>scrape_worker\<close>: the index the batch starts at.\<close>

definition initial_chapter_number :: "world \<Rightarrow> int" where
  "initial_chapter_number w =
     (case get_last_chapter_scraped w of Some h \<Rightarrow> int h + 1 | None \<Rightarrow> 1)"

subsection \<open>\<open>config_ebook_path\<close>\<close>

text \<open>The directory name \<open>f"{initial}-{end}"\<close> of a batch.\<close>

definition batch_dir_name :: "int \<Rightarrow> int \<Rightarrow> string" where
  "batch_dir_name initial end' = show_int initial @ ''-'' @ show_int end'"

definition config_ebook_path :: "int \<Rightarrow> int \<Rightarrow> world \<Rightarrow> world" where
  "config_ebook_path initial end' w =
     (let p = path_join (output_file_path w) (batch_dir_name initial end')
      in w\<lparr>output_file_path := p, console := console w @ [''Output Path: '' @ p]\<rparr>)"

section \<open>Content cleaner\<close>

subsection \<open>\<open>remove_pattern\<close>\<close>

text \<open>\<open>data.split("\n")\<close> and \<open>"\n".join(...)\<close>.\<close>

fun split_on :: "char \<Rightarrow> string \<Rightarrow> string list" where
  "split_on sep [] = [[]]"
| "split_on sep (c # cs) =
     (if c = sep then [] # split_on sep cs
      else (case split_on sep cs of [] \<Rightarrow> [[c]] | l # ls \<Rightarrow> (c # l) # ls))"

fun join :: "string \<Rightarrow> string list \<Rightarrow> string" where
  "join sep [] = []"
| "join sep [l] = l"
| "join sep (l # ls) = l @ sep @ join sep ls"

definition remove_pattern :: "string \<Rightarrow> string \<Rightarrow> string" where
  "remove_pattern data match_string =
     join [LF] (filter (\<lambda>line. \<not> sublist (lower match_string) (lower line)) (split_on LF data))"

subsection \<open>\<open>remove_exclusions\<close>\<close>

text \<open>
  \<open>re.sub('|'.join(map(re.escape, exclusions)), '', data)\<close>: scanning from the left, the
  first alternative that matches at the current position is deleted and the scan goes
  on behind it; where none matches the character is kept.  An empty alternative
  deletes nothing, and behind an empty match the search at the same position goes on
  for a match that is not empty: so the first non-empty alternative that matches is
  the one deleted.
\<close>

function remove_exclusions :: "string \<Rightarrow> string list \<Rightarrow> string" where
  "remove_exclusions [] exclusions = []"
| "remove_exclusions (c # cs) exclusions =
     (case find (\<lambda>e. e \<noteq> [] \<and> prefix e (c # cs)) exclusions of
        None \<Rightarrow> c # remove_exclusions cs exclusions
      | Some e \<Rightarrow> remove_exclusions (drop (length e) (c # cs)) exclusions)"
  by pat_completeness auto
termination
  by (relation "measure (\<lambda>(data, exclusions). length data)") (auto simp: find_Some_iff)

subsection \<open>\<open>remove_last_p_tag\<close>\<close>

text \<open>
  \<open>find_all(name)\<close> lists the elements of that name in document order; an element is
  given by its position, the path of child indices leading to it.  \<open>extract\<close>
  takes the element at a position out of the tree.
\<close>

fun find_all_in :: "string \<Rightarrow> nat \<Rightarrow> node list \<Rightarrow> nat list list"
  and find_all_at :: "string \<Rightarrow> nat \<Rightarrow> node \<Rightarrow> nat list list" where
  "find_all_in name i [] = []"
| "find_all_in name i (n # ns) = find_all_at name i n @ find_all_in name (Suc i) ns"
| "find_all_at name i (Text s) = []"
| "find_all_at name i (Elem tag attrs children) =
     (if tag = name then [[i]] else []) @ map ((#) i) (find_all_in name 0 children)"

definition find_all :: "string \<Rightarrow> node list \<Rightarrow> nat list list" where
  "find_all name doc = find_all_in name 0 doc"

fun extract_tag :: "nat list \<Rightarrow> node list \<Rightarrow> node list" where
  "extract_tag [] doc = doc"
| "extract_tag [i] doc = take i doc @ drop (Suc i) doc"
| "extract_tag (i # j # path) doc =
     (if i < length doc
      then (case doc ! i of
              Text s \<Rightarrow> doc
            | Elem tag attrs children \<Rightarrow> doc[i := Elem tag attrs (extract_tag (j # path) children)])
      else doc)"

definition remove_last_p_tag :: "markup \<Rightarrow> string \<Rightarrow> node list" where
  "remove_last_p_tag m data =
     (let doc = parse m data; p_tags = find_all ''p'' doc
      in if p_tags \<noteq> [] then extract_tag (last p_tags) doc else doc)"

subsection \<open>\<open>clean_text\<close>\<close>

definition exclusions :: "string list" where
  "exclusions = [''Translator:'', ''Atlas Studios'', ''Editor:'', ''EndlessFantasy Translation'']"

definition clean_text :: "markup \<Rightarrow> string \<Rightarrow> string" where
  "clean_text m data =
     (let data1 = nfkc m data;
          data2 = remove_pattern data1 ''libread.com'';
          data3 = remove_exclusions data2 exclusions
      in render m (remove_last_p_tag m data3))"

section \<open>Page fetcher\<close>

subsection \<open>\<open>get_choice\<close>\<close>

text \<open>
  Every round of the loop is one \<open>input(prompt)\<close>: it shows the prompt and takes the
  next line the operator types (\<open>EOFError\<close> when there is none).
\<close>

fun get_choice_loop :: "string \<Rightarrow> string list \<Rightarrow> world \<Rightarrow> (py_error + string) \<times> world" where
  "get_choice_loop prompt [] w = (Inl EOFError, w\<lparr>stdin := [], console := console w @ [prompt]\<rparr>)"
| "get_choice_loop prompt (user_choice # typed) w =
     (let w' = w\<lparr>stdin := typed, console := console w @ [prompt]\<rparr> in
      if lower user_choice \<in> set [''c'', ''y'', ''n''] then (Inr (lower user_choice), w')
      else get_choice_loop prompt typed (w'\<lparr>console := console w' @ [''Hush, You wrong doer'']\<rparr>))"

definition choice_prompt :: "int \<Rightarrow> string" where
  "choice_prompt chapterNumber =
     ''Do you wish to keep retrying (c/y/n)'' @ [TAB, TAB] @ ''Chap'' @ show_int chapterNumber @ '': ''"

definition get_choice :: "int \<Rightarrow> world \<Rightarrow> (py_error + string) \<times> world" where
  "get_choice chapterNumber w = get_choice_loop (choice_prompt chapterNumber) (stdin w) w"

text \<open>The prompt of the \<open>'c'\<close> branch of \<open>scrape_one_webpage\<close>.\<close>

definition url_prompt :: "int \<Rightarrow> string" where
  "url_prompt webpage_no = ''Enter the URL for chapter '' @ show_int webpage_no @ '': ''"

subsection \<open>\<open>scrape_one_webpage\<close>\<close>

text \<open>
  One round of the \<open>while True\<close> loop, on the answer of the web to its request.
  The local variable \<open>chapter\<close> is bound only in the branch that returns, so the
  assignment \<open>chapter.content = ...\<close> of the \<open>'n'\<close> branch finds it unbound.
\<close>

datatype step = Return bool "string option" | Continue string int | Throw py_error

definition attempt :: "config \<Rightarrow> response \<Rightarrow> string \<Rightarrow> int \<Rightarrow> int \<Rightarrow> world \<Rightarrow> step \<times> world" where
  "attempt cfg resp web_url webpage_no retry_no w =
     (case resp of
        Failed \<Rightarrow> (Continue web_url retry_no, w\<lparr>log := log w @ [FailedToGet web_url]\<rparr>)
      | Page pg \<Rightarrow>
          (case find_next_chapter_link (domain_name cfg) (next_button pg) of
             Inl e \<Rightarrow> (Throw e, w)
           | Inr next_url \<Rightarrow>
               if max_retries cfg = 0 then (Throw ZeroDivisionError, w)
               else
                 (let w1 = (if retry_no > 8 mod max_retries cfg
                            then w\<lparr>log := log w @ [Retrying web_url retry_no]\<rparr> else w)
                  in case text_div pg of
                       Some relevant_html_part \<Rightarrow>
                         (let chapter =
                                \<lparr>title = ''Chapter '' @ show_int webpage_no,
                                 file_name = ''chapter'' @ show_int webpage_no @ ''.xhtml'',
                                 content = ''<h2>Chapter '' @ show_int webpage_no @ ''</h2>''
                                           @ clean_text (lib cfg) relevant_html_part\<rparr>
                          in (Return True next_url,
                              w1\<lparr>book_items := book_items w1 @ [chapter],
                                 chapters := chapters w1 @ [chapter],
                                 log := log w1 @ [Scraped webpage_no web_url retry_no]\<rparr>))
                     | None \<Rightarrow>
                         if retry_no mod max_retries cfg = 0 then
                           (case get_choice webpage_no w1 of
                              (Inl e, w2) \<Rightarrow> (Throw e, w2)
                            | (Inr user_choice, w2) \<Rightarrow>
                                if lower user_choice = ''n'' then (Throw UnboundLocalError, w2)
                                else if lower user_choice = ''c'' then
                                  (case input_line (url_prompt webpage_no) w2 of
                                     (Inl e, w3) \<Rightarrow> (Throw e, w3)
                                   | (Inr new_url, w3) \<Rightarrow>
                                       (Continue new_url (retry_no + 1),
                                        w3\<lparr>log := log w3 @ [NewUrl new_url]\<rparr>))
                                else (Continue web_url (retry_no + 1), w2))
                         else (Continue web_url (retry_no + 1), w1))))"

text \<open>
  The loop takes the answers of the web in turn; with none left it is still running,
  in the state \<open>Pending web_url retry_no\<close>.
\<close>

fun scrape_loop ::
  "config \<Rightarrow> (string \<Rightarrow> response) list \<Rightarrow> string \<Rightarrow> int \<Rightarrow> int \<Rightarrow> world
     \<Rightarrow> (bool \<times> string option) outcome \<times> world" where
  "scrape_loop cfg [] web_url webpage_no retry_no w = (Pending web_url retry_no, w\<lparr>net := []\<rparr>)"
| "scrape_loop cfg (answer # rest) web_url webpage_no retry_no w =
     (case attempt cfg (answer web_url) web_url webpage_no retry_no (w\<lparr>net := rest\<rparr>) of
        (Return ok next_url, w') \<Rightarrow> (Done (ok, next_url), w')
      | (Throw e, w') \<Rightarrow> (Raise e, w')
      | (Continue web_url' retry_no', w') \<Rightarrow> scrape_loop cfg rest web_url' webpage_no retry_no' w')"

definition scrape_one_webpage ::
  "config \<Rightarrow> string option \<Rightarrow> int \<Rightarrow> world \<Rightarrow> (bool \<times> string option) outcome \<times> world" where
  "scrape_one_webpage cfg web_url webpage_no w =
     (case web_url of
        None \<Rightarrow> (Done (False, None), w\<lparr>log := log w @ [NoMoreChapters webpage_no]\<rparr>)
      | Some u \<Rightarrow> scrape_loop cfg (net w) u webpage_no 1 w)"

section \<open>Batch crawler\<close>

subsection \<open>\<open>scrape_worker\<close>\<close>

text \<open>
  The \<open>for\<close> loop over \<open>range(initial_chapter_number, initial_chapter_number + batch_size)\<close>:
  \<open>k\<close> indices are left, \<open>next_i\<close> is the one the range gives next, and \<open>i\<close> is the
  binding of the loop variable (\<open>None\<close> while unbound).  The loop hands \<open>i\<close> and
  \<open>last_valid_url\<close> to the statements behind it.
\<close>

fun batch_loop ::
  "config \<Rightarrow> nat \<Rightarrow> int \<Rightarrow> int option \<Rightarrow> string option \<Rightarrow> string option \<Rightarrow> world
     \<Rightarrow> (int option \<times> string option) outcome \<times> world" where
  "batch_loop cfg 0 next_i i current_url last_valid_url w = (Done (i, last_valid_url), w)"
| "batch_loop cfg (Suc k) next_i i current_url last_valid_url w =
     (case scrape_one_webpage cfg current_url next_i w of
        (Done (has_more_pages, current_url'), w') \<Rightarrow>
          (let last_valid_url' = (if current_url' \<noteq> None then current_url' else last_valid_url)
           in if \<not> has_more_pages then (Done (Some next_i, last_valid_url'), w')
              else batch_loop cfg k (next_i + 1) (Some next_i) current_url' last_valid_url' w')
      | (Raise e, w') \<Rightarrow> (Raise e, w')
      | (Pending u r, w') \<Rightarrow> (Pending u r, w'))"

definition scrape_worker :: "config \<Rightarrow> int \<Rightarrow> world \<Rightarrow> unit outcome \<times> world" where
  "scrape_worker cfg batch_size' w =
     (let current_url = initial_url w;
          initial = initial_chapter_number w
      in case batch_loop cfg (nat batch_size') initial None current_url current_url w of
           (Done (i, last_valid_url), w') \<Rightarrow>
             (let w'' = write_to_file last_valid_url w'
              in case i of
                   None \<Rightarrow> (Raise UnboundLocalError, w'')
                 | Some i' \<Rightarrow> (Done (), config_ebook_path initial i' w''))
         | (Raise e, w') \<Rightarrow> (Raise e, w')
         | (Pending u r, w') \<Rightarrow> (Pending u r, w'))"

section \<open>Packaging\<close>


section \<open>A markup library for the examples\<close>

text \<open>
  The examples below run the cleaner on fragments made of plain text and of
  \<open><p>\<close> elements without attributes and without nesting.  On these the parser reads
  \<open><p>\<close> and \<open></p>\<close> as tags and everything else as text, the serialiser prints the
  tree back, and NFKC normalisation leaves the (ASCII) text as it is.
\<close>

definition text_node :: "string \<Rightarrow> node list" where
  "text_node s = (if s = [] then [] else [Text s])"

fun flat_scan :: "bool \<Rightarrow> string \<Rightarrow> string \<Rightarrow> node list" where
  "flat_scan inside cur [] = (if inside then [Elem ''p'' [] (text_node cur)] else text_node cur)"
| "flat_scan inside cur (c # cs) =
     (let cur' = cur @ [c] in
      if \<not> inside \<and> drop (length cur' - 3) cur' = ''<p>''
      then text_node (take (length cur' - 3) cur') @ flat_scan True [] cs
      else if inside \<and> drop (length cur' - 4) cur' = ''</p>''
      then Elem ''p'' [] (text_node (take (length cur' - 4) cur')) # flat_scan False [] cs
      else flat_scan inside cur' cs)"

fun flat_print :: "node list \<Rightarrow> string" and flat_print_node :: "node \<Rightarrow> string" where
  "flat_print [] = []"
| "flat_print (n # ns) = flat_print_node n @ flat_print ns"
| "flat_print_node (Text s) = s"
| "flat_print_node (Elem tag attrs children) =
     ''<'' @ tag @ ''>'' @ flat_print children @ ''</'' @ tag @ ''>''"

definition flat_markup :: markup where
  "flat_markup = \<lparr>nfkc = (\<lambda>s. s), parse = flat_scan False [], render = flat_print\<rparr>"

section \<open>Notions used in the statements\<close>

text \<open>The text stored in the frontier file; a file that does not exist stores nothing.\<close>

definition file_text :: "world \<Rightarrow> string" where
  "file_text w = (case links_file w of None \<Rightarrow> [] | Some raw \<Rightarrow> raw)"

text \<open>
  The \<open>end\<close> values of the batch directories of a listing: the directories whose name
  is \<open>{initial}-{end}\<close> for two indices.
\<close>

definition ends_of :: "(string \<times> bool) list \<Rightarrow> nat set" where
  "ends_of entries = {b. \<exists>a. (batch_dir_name (int a) (int b), True) \<in> set entries}"

text \<open>
  A page on which the content selector finds nothing (and whose next link, if there is
  one, has its \<open>href\<close>): the answer that makes the retry loop count up.
\<close>

definition content_missing :: "response \<Rightarrow> bool" where
  "content_missing resp =
     (case resp of Failed \<Rightarrow> False | Page pg \<Rightarrow> text_div pg = None \<and> next_button pg \<noteq> Some None)"

text \<open>
  The two answers of the operator that keep the retry loop running, what each one has
  them type, what the console shows for it, and the URL the loop goes on with.
\<close>

datatype decision = KeepRetrying | ReplaceUrl string

fun typed :: "decision \<Rightarrow> string list" where
  "typed KeepRetrying = [''y'']"
| "typed (ReplaceUrl u) = [''c'', u]"

fun shown :: "int \<Rightarrow> decision \<Rightarrow> string list" where
  "shown i KeepRetrying = [choice_prompt i]"
| "shown i (ReplaceUrl u) = [choice_prompt i, url_prompt i]"

fun url_after :: "string \<Rightarrow> decision list \<Rightarrow> string" where
  "url_after u [] = u"
| "url_after u (KeepRetrying # ds) = url_after u ds"
| "url_after u (ReplaceUrl v # ds) = url_after v ds"

text \<open>
  How many of the counter values \<open>r, r + 1, ..., r + k - 1\<close> are multiples of \<open>R\<close>.
\<close>

definition due :: "int \<Rightarrow> int \<Rightarrow> nat \<Rightarrow> nat" where
  "due R r k = nat ((r + int k - 1) div R - (r - 1) div R)"

text \<open>What a run leaves behind on disk: the frontier file, the output path reported
  for the batch and the books written.\<close>

definition persisted :: "world \<Rightarrow> string option \<times> string \<times> (string \<times> epub_html list) list" where
  "persisted w = (links_file w, output_file_path w, epubs w)"

text \<open>
  A text without forbidden patterns: no line contains the watermark (in any case of
  letters) and none of the excluded phrases occurs in it.
\<close>

definition pattern_free :: "string \<Rightarrow> bool" where
  "pattern_free y \<longleftrightarrow>
     (\<forall>line \<in> set (split_on LF y). \<not> sublist (lower ''libread.com'') (lower line))
     \<and> (\<forall>e \<in> set exclusions. \<not> sublist e y)"

text \<open>A scraper that has harvested nothing yet, with nothing on disk and nobody typing.\<close>

definition fresh_world :: world where
  "fresh_world =
     \<lparr>initial_url = None, output_file_path = ''epub/N'', chapters = [], book_items = [],
      links_file = None, out_listing = Some [], stdin = [], console = [], net = [],
      log = [], epubs = [], makedirs_raises = None, write_epub_raises = None\<rparr>"

definition example_config :: config where
  "example_config =
     \<lparr>domain_name = ''https://example.com'', max_retries = 3, novel_name = ''N'',
      batch_size = 2, lib = flat_markup\<rparr>"

section \<open>Next-link resolution\<close>

text \<open>
  C7. With no element matching the next-link selector the result is \<open>None\<close>.  A link
  found on the page is returned as it is when the configured domain occurs in it, and
  with the domain put in front otherwise.
\<close>

theorem next_link_normalization:
  "find_next_chapter_link d None = Inr None
   \<and> ((\<exists>ps ss. l = ps @ d @ ss) \<longrightarrow> find_next_chapter_link d (Some (Some l)) = Inr (Some l))
   \<and> (\<not> (\<exists>ps ss. l = ps @ d @ ss) \<longrightarrow>
        find_next_chapter_link d (Some (Some l)) = Inr (Some (d @ l)))"
  by (simp add: find_next_chapter_link_def sublist_def)

lemma relative_link_outside_domain:
  "\<not> (\<exists>ps ss. ''/ch/5'' = ps @ ''https://example.com'' @ ss)"
proof -
  have "\<not> sublist ''https://example.com'' ''/ch/5''"
    by (simp add: sublist_code(3))
  then show ?thesis
    unfolding sublist_def .
qed

theorem next_link_normalization_witness:
  "\<not> (\<exists>ps ss. ''/ch/5'' = ps @ ''https://example.com'' @ ss)
   \<and> find_next_chapter_link ''https://example.com'' (Some (Some ''/ch/5''))
       = Inr (Some ''https://example.com/ch/5'')
   \<and> (\<exists>ps ss. ''https://example.com/ch/6'' = ps @ ''https://example.com'' @ ss)
   \<and> find_next_chapter_link ''https://example.com'' (Some (Some ''https://example.com/ch/6''))
       = Inr (Some ''https://example.com/ch/6'')"
proof -
  have inside: "\<exists>ps ss. ''https://example.com/ch/6'' = ps @ ''https://example.com'' @ ss"
    by (rule exI [of _ "[]"], rule exI [of _ "''/ch/6''"]) simp
  from next_link_normalization [of "''https://example.com''" "''/ch/5''"]
    next_link_normalization [of "''https://example.com''" "''https://example.com/ch/6''"]
    relative_link_outside_domain inside
  show ?thesis by simp
qed

section \<open>Resuming from the batch directories\<close>

subsection \<open>Decimal numerals are read back as written\<close>

lemma digit_char_is_digit: "d < 10 \<Longrightarrow> is_digit (digit_char d)"
proof -
  assume "d < 10"
  then have "d \<in> {0,1,2,3,4,5,6,7,8,9}" by auto
  then show ?thesis by (auto simp: is_digit_def digit_char_def)
qed

lemma digit_val_digit_char: "d < 10 \<Longrightarrow> digit_val (digit_char d) = d"
proof -
  assume "d < 10"
  then have "d \<in> {0,1,2,3,4,5,6,7,8,9}" by auto
  then show ?thesis by (auto simp: digit_val_def digit_char_def)
qed

lemma show_nat_digits: "\<forall>c \<in> set (show_nat n). is_digit c"
proof (induction n rule: show_nat.induct)
  case (1 n)
  show ?case
  proof (cases "n < 10")
    case True
    then show ?thesis by (subst show_nat.simps) (simp add: digit_char_is_digit)
  next
    case False
    with 1 show ?thesis by (subst show_nat.simps) (simp add: digit_char_is_digit)
  qed
qed

lemma show_nat_nonempty: "show_nat n \<noteq> []"
  by (subst show_nat.simps) simp

lemma int_of_digits_snoc: "int_of_digits (ds @ [c]) = 10 * int_of_digits ds + digit_val c"
  by (simp add: int_of_digits_def)

lemma int_of_digits_show_nat: "int_of_digits (show_nat n) = n"
proof (induction n rule: show_nat.induct)
  case (1 n)
  show ?case
  proof (cases "n < 10")
    case True
    then show ?thesis
      by (subst show_nat.simps) (simp add: int_of_digits_def digit_val_digit_char)
  next
    case False
    with 1 have "int_of_digits (show_nat (n div 10)) = n div 10" by simp
    with False show ?thesis
      by (subst show_nat.simps) (simp add: int_of_digits_snoc digit_val_digit_char)
  qed
qed

lemma hyphen_not_digit: "\<not> is_digit CHR ''-''"
  by (simp add: is_digit_def)

lemma takeWhile_show_nat: "takeWhile is_digit (show_nat n @ CHR ''-'' # rest) = show_nat n"
  using show_nat_digits [of n] by (simp add: takeWhile_append2 hyphen_not_digit)

lemma dropWhile_show_nat: "dropWhile is_digit (show_nat n @ CHR ''-'' # rest) = CHR ''-'' # rest"
  using show_nat_digits [of n] by (simp add: dropWhile_append2 hyphen_not_digit)

lemma takeWhile_show_nat_end: "takeWhile is_digit (show_nat n) = show_nat n"
  using show_nat_digits [of n] by (simp add: takeWhile_eq_all_conv)

lemma match_range_batch_dir_name:
  "match_range (batch_dir_name (int a) (int b)) = Some (a, b)"
  by (simp add: match_range_def batch_dir_name_def show_int_def takeWhile_show_nat
      dropWhile_show_nat takeWhile_show_nat_end show_nat_nonempty int_of_digits_show_nat)

lemma batch_dir_name_inj:
  "batch_dir_name (int a) (int b) = batch_dir_name (int a') (int b') \<Longrightarrow> a = a' \<and> b = b'"
  by (metis match_range_batch_dir_name option.inject prod.inject)

lemma ends_of_Nil: "ends_of [] = {}"
  by (simp add: ends_of_def)

lemma ends_of_Cons_dir:
  "ends_of ((batch_dir_name (int a) (int b), True) # es) = insert b (ends_of es)"
  by (auto simp: ends_of_def dest: batch_dir_name_inj)

lemma ends_of_Cons_file: "ends_of ((name, False) # es) = ends_of es"
  by (auto simp: ends_of_def)

lemma finite_ends_of: "finite (ends_of es)"
proof -
  have "ends_of es \<subseteq> (\<lambda>e. case match_range (fst e) of Some (a, b) \<Rightarrow> b | None \<Rightarrow> 0) ` set es"
    by (force simp: ends_of_def match_range_batch_dir_name image_iff)
  then show ?thesis by (rule finite_subset) simp
qed

lemma Max_insert_max:
  "finite S \<Longrightarrow> Max (insert (max h b) S) = max (h::nat) (Max (insert b S))"
  by (cases "S = {}") (simp_all add: max.assoc)

lemma scan_folders_batch_dirs:
  assumes "\<forall>(name, is_dir) \<in> set entries. is_dir \<longrightarrow> (\<exists>a b. name = batch_dir_name (int a) (int b))"
  shows "scan_folders h entries =
           (if ends_of entries \<union> set_option h = {} then None
            else Some (Max (ends_of entries \<union> set_option h)))"
  using assms
proof (induction entries arbitrary: h)
  case Nil
  then show ?case by (cases h) (simp_all add: ends_of_Nil)
next
  case (Cons e es)
  obtain name is_dir where e: "e = (name, is_dir)" by (cases e)
  from Cons.prems have rest: "\<forall>(name, is_dir) \<in> set es. is_dir \<longrightarrow> (\<exists>a b. name = batch_dir_name (int a) (int b))"
    by simp
  note IH = Cons.IH [OF rest]
  show ?case
  proof (cases is_dir)
    case False
    then show ?thesis using e IH by (simp add: ends_of_Cons_file split: option.splits)
  next
    case True
    with Cons.prems e obtain a b where nm: "name = batch_dir_name (int a) (int b)" by auto
    have fin: "finite (ends_of es)" by (rule finite_ends_of)
    show ?thesis
    proof (cases h)
      case None
      then show ?thesis using e True nm IH fin
        by (simp add: match_range_batch_dir_name ends_of_Cons_dir)
    next
      case (Some h')
      then show ?thesis using e True nm IH fin
        by (simp add: match_range_batch_dir_name ends_of_Cons_dir Max_insert_max)
    qed
  qed
qed

text \<open>
  C4. When the entries of the output directory that are directories are all named
  \<open>{initial}-{end}\<close>, the batch starts at the largest \<open>end\<close> among them plus one, and
  at 1 when there is none.  Entries that are not directories do not count.
\<close>

theorem resume_index:
  assumes "out_listing w = Some entries"
      and "\<forall>(name, is_dir) \<in> set entries. is_dir \<longrightarrow> (\<exists>a b. name = batch_dir_name (int a) (int b))"
  shows "initial_chapter_number w =
           (if ends_of entries = {} then 1 else int (Max (ends_of entries)) + 1)"
  using assms(1) scan_folders_batch_dirs [OF assms(2), of None]
  by (simp add: initial_chapter_number_def get_last_chapter_scraped_def)


theorem resume_index_witness:
  "initial_chapter_number
     (fresh_world\<lparr>out_listing :=
        Some [(''1-50'', True), (''Links.txt'', False), (''51-100'', True)]\<rparr>) = 101"
proof -
  let ?es = "[(batch_dir_name (int 1) (int 50), True), (''Links.txt'', False),
              (batch_dir_name (int 51) (int 100), True)]"
  let ?w = "fresh_world\<lparr>out_listing := Some ?es\<rparr>"
  have names: "batch_dir_name (int 1) (int 50) = ''1-50''"
    "batch_dir_name (int 51) (int 100) = ''51-100''"
    by (simp_all add: batch_dir_name_def show_int_def show_nat.simps digit_char_def)
  have d1: "\<exists>a b. batch_dir_name 1 50 = batch_dir_name (int a) (int b)"
    by (rule exI [of _ 1], rule exI [of _ 50]) simp
  have d2: "\<exists>a b. batch_dir_name 51 100 = batch_dir_name (int a) (int b)"
    by (rule exI [of _ 51], rule exI [of _ 100]) simp
  have dirs: "\<forall>(name, is_dir) \<in> set ?es. is_dir \<longrightarrow> (\<exists>a b. name = batch_dir_name (int a) (int b))"
    using d1 d2 by simp
  have ends: "ends_of ?es = {50, 100}"
    by (simp only: ends_of_Cons_dir ends_of_Cons_file ends_of_Nil)
  have "out_listing ?w = Some ?es"
    by simp
  from resume_index [OF this dirs] ends have "initial_chapter_number ?w = 101"
    by simp
  then show ?thesis
    by (simp only: names)
qed

section \<open>Appending to the frontier file\<close>

lemma universal_newlines_no_CR: "CR \<notin> set s \<Longrightarrow> universal_newlines s = s"
  by (induction s rule: universal_newlines.induct) auto

lemma universal_newlines_append:
  "xs = [] \<or> last xs \<noteq> CR \<Longrightarrow>
   universal_newlines (xs @ ys) = universal_newlines xs @ universal_newlines ys"
proof (induction xs rule: universal_newlines.induct)
  case 1
  then show ?case by simp
next
  case (2 a)
  then show ?case by (cases ys) auto
next
  case (3 a b cs)
  then show ?case by (auto split: if_splits)
qed

lemma universal_newlines_last_LF:
  "xs \<noteq> [] \<Longrightarrow> last xs = LF \<Longrightarrow>
   universal_newlines xs \<noteq> [] \<and> last (universal_newlines xs) = LF"
proof (induction xs rule: universal_newlines.induct)
  case 1
  then show ?case by simp
next
  case (2 a)
  then show ?case by simp
next
  case (3 a b cs)
  then show ?case by (cases cs) (auto split: if_splits)
qed

lemma keep_lines_one: "LF \<notin> set v \<Longrightarrow> keep_lines cur (v @ [LF]) = [cur @ v @ [LF]]"
  by (induction v arbitrary: cur) auto

lemma keep_lines_append:
  "xs \<noteq> [] \<Longrightarrow> last xs = LF \<Longrightarrow> keep_lines cur (xs @ ys) = keep_lines cur xs @ keep_lines [] ys"
proof (induction xs arbitrary: cur)
  case Nil
  then show ?case by simp
next
  case (Cons x xs)
  then show ?case by (cases "xs = []") auto
qed

lemma readlines_appended:
  assumes "raw = [] \<or> last raw = LF" "LF \<notin> set v" "CR \<notin> set v"
  shows "readlines (raw @ v @ [LF]) = readlines raw @ [v @ [LF]]"
proof (cases "raw = []")
  case True
  with assms show ?thesis
    using keep_lines_one [of v "[]"]
    by (simp add: readlines_def universal_newlines_no_CR LF_def CR_def)
next
  case False
  with assms have l: "last raw = LF" by simp
  have ne: "LF \<noteq> CR" by (simp add: LF_def CR_def)
  from False l ne have "universal_newlines (raw @ v @ [LF]) = universal_newlines raw @ universal_newlines (v @ [LF])"
    by (intro universal_newlines_append) simp
  also have "universal_newlines (v @ [LF]) = v @ [LF]"
    using assms(3) ne by (intro universal_newlines_no_CR) auto
  finally have u: "universal_newlines (raw @ v @ [LF]) = universal_newlines raw @ v @ [LF]" .
  from universal_newlines_last_LF [OF False l]
  have "keep_lines [] (universal_newlines raw @ v @ [LF]) =
          keep_lines [] (universal_newlines raw) @ keep_lines [] (v @ [LF])"
    by (intro keep_lines_append) simp_all
  with u show ?thesis
    using keep_lines_one [OF assms(2), of "[]"] by (simp add: readlines_def)
qed

lemma is_space_LF: "is_space LF"
  by (simp add: is_space_def LF_def)

lemma strip_line: "strip v = v \<Longrightarrow> strip (v @ [LF]) = v"
  by (simp add: strip_def is_space_LF)

lemma write_to_file_prefix: "prefix (file_text w) (file_text (write_to_file val w))"
  by (auto simp: write_to_file_def file_text_def Let_def split: option.splits)

lemma write_to_file_twice:
  assumes "strip v = v" "LF \<notin> set v" "CR \<notin> set v"
      and "links_file w = None \<or> (\<exists>raw. links_file w = Some raw \<and> (raw = [] \<or> last raw = LF))"
  shows "write_to_file (Some v) (write_to_file (Some v) w) = write_to_file (Some v) w"
proof (cases "links_file w")
  case None
  have "readlines ([] @ v @ [LF]) = readlines [] @ [v @ [LF]]"
    using assms by (intro readlines_appended) simp_all
  then have "readlines (v @ [LF]) = [v @ [LF]]"
    by (simp add: readlines_def)
  with None assms(1) show ?thesis
    by (simp add: write_to_file_def strip_line)
next
  case (Some raw)
  with assms(4) have r: "raw = [] \<or> last raw = LF"
    by auto
  have rl: "readlines (raw @ v @ [LF]) = readlines raw @ [v @ [LF]]"
    using r assms(2,3) by (rule readlines_appended)
  show ?thesis
  proof (cases "readlines raw \<noteq> [] \<and> strip (last (readlines raw)) = v")
    case True
    with Some show ?thesis
      by (simp add: write_to_file_def)
  next
    case False
    with Some have "write_to_file (Some v) w = w\<lparr>links_file := Some (raw @ v @ [LF])\<rparr>"
      by (auto simp: write_to_file_def Let_def)
    moreover have "write_to_file (Some v) (w\<lparr>links_file := Some (raw @ v @ [LF])\<rparr>)
        = w\<lparr>links_file := Some (raw @ v @ [LF])\<rparr>"
      using rl assms(1) by (simp add: write_to_file_def strip_line)
    ultimately show ?thesis
      by simp
  qed
qed

lemma write_to_file_cases:
  "write_to_file (Some v) w
   = (if readlines (file_text w) \<noteq> [] \<and> strip (last (readlines (file_text w))) = v then w
      else w\<lparr>links_file := Some (file_text w @ v @ [LF])\<rparr>)"
  by (cases "links_file w") (auto simp: write_to_file_def file_text_def Let_def readlines_def)

text \<open>
  C5, as the code has it.  Take a URL without blanks at its ends and without a line
  break, and a frontier file that is absent, empty or ends with a line feed.  After an
  append the file exists and its last line, stripped, is the URL.  The append leaves the
  file as it is when its last line already was the URL, and otherwise adds the URL as
  one line behind the lines there were.  The second of two appends in succession
  changes nothing.  The text stored before stays in front of the text stored after.
\<close>

theorem frontier_append_idempotent:
  assumes "strip v = v" "LF \<notin> set v" "CR \<notin> set v"
      and "links_file w = None \<or> (\<exists>raw. links_file w = Some raw \<and> (raw = [] \<or> last raw = LF))"
  shows "write_to_file (Some v) (write_to_file (Some v) w) = write_to_file (Some v) w
         \<and> links_file (write_to_file (Some v) w) \<noteq> None
         \<and> readlines (file_text (write_to_file (Some v) w)) \<noteq> []
         \<and> strip (last (readlines (file_text (write_to_file (Some v) w)))) = v
         \<and> (if readlines (file_text w) \<noteq> [] \<and> strip (last (readlines (file_text w))) = v
            then write_to_file (Some v) w = w
            else links_file (write_to_file (Some v) w) = Some (file_text w @ v @ [LF])
                 \<and> readlines (file_text (write_to_file (Some v) w))
                     = readlines (file_text w) @ [v @ [LF]])
         \<and> prefix (file_text w) (file_text (write_to_file (Some v) w))"
proof -
  let ?w' = "write_to_file (Some v) w"
  let ?there = "readlines (file_text w) \<noteq> [] \<and> strip (last (readlines (file_text w))) = v"
  have twice: "write_to_file (Some v) ?w' = ?w'"
    using assms by (rule write_to_file_twice)
  have pre: "prefix (file_text w) (file_text ?w')"
    by (rule write_to_file_prefix)
  have r: "file_text w = [] \<or> last (file_text w) = LF"
    using assms(4) by (auto simp: file_text_def)
  have rl: "readlines (file_text w @ v @ [LF]) = readlines (file_text w) @ [v @ [LF]]"
    using r assms(2,3) by (rule readlines_appended)
  show ?thesis
  proof (cases ?there)
    case True
    have same: "?w' = w"
      unfolding write_to_file_cases using True by (rule if_P)
    from True have "file_text w \<noteq> []"
      by (auto simp: readlines_def)
    then have ex: "links_file ?w' \<noteq> None"
      unfolding same by (auto simp: file_text_def split: option.splits)
    from True have l: "readlines (file_text ?w') \<noteq> []"
      "strip (last (readlines (file_text ?w'))) = v"
      unfolding same by simp_all
    have branch: "if ?there then ?w' = w
                  else links_file ?w' = Some (file_text w @ v @ [LF])
                       \<and> readlines (file_text ?w') = readlines (file_text w) @ [v @ [LF]]"
      unfolding if_P [OF True] by (rule same)
    from twice ex l branch pre show ?thesis
      by (intro conjI)
  next
    case False
    have new: "?w' = w\<lparr>links_file := Some (file_text w @ v @ [LF])\<rparr>"
      unfolding write_to_file_cases using False by (rule if_not_P)
    then have stored: "links_file ?w' = Some (file_text w @ v @ [LF])"
      by simp
    then have ex: "links_file ?w' \<noteq> None"
      by simp
    from stored have ft: "file_text ?w' = file_text w @ v @ [LF]"
      by (simp add: file_text_def)
    from ft rl have lines: "readlines (file_text ?w') = readlines (file_text w) @ [v @ [LF]]"
      by simp
    then have l: "readlines (file_text ?w') \<noteq> []"
      by simp
    from lines assms(1) have s: "strip (last (readlines (file_text ?w'))) = v"
      by (simp add: strip_line)
    have branch: "if ?there then ?w' = w
                  else links_file ?w' = Some (file_text w @ v @ [LF])
                       \<and> readlines (file_text ?w') = readlines (file_text w) @ [v @ [LF]]"
      unfolding if_not_P [OF False] using stored lines by (rule conjI)
    from twice ex l s branch pre show ?thesis
      by (intro conjI)
  qed
qed

theorem frontier_append_idempotent_witness:
  "links_file
     (write_to_file (Some ''http://x/2'')
        (write_to_file (Some ''http://x/2'') (fresh_world\<lparr>links_file := Some ''http://x/1\<newline>''\<rparr>)))
   = Some ''http://x/1\<newline>http://x/2\<newline>''"
proof -
  let ?w = "fresh_world\<lparr>links_file := Some ''http://x/1\<newline>''\<rparr>"
  have v: "strip ''http://x/2'' = ''http://x/2''"
    "LF \<notin> set ''http://x/2''" "CR \<notin> set ''http://x/2''"
    by (simp_all add: strip_def is_space_def LF_def CR_def)
  have f: "links_file ?w = None
           \<or> (\<exists>raw. links_file ?w = Some raw \<and> (raw = [] \<or> last raw = LF))"
    by (simp add: LF_def)
  have once: "links_file (write_to_file (Some ''http://x/2'') ?w)
              = Some ''http://x/1\<newline>http://x/2\<newline>''"
    by (simp add: write_to_file_def fresh_world_def readlines_def strip_def is_space_def
        LF_def CR_def)
  from frontier_append_idempotent [OF v f]
  have "write_to_file (Some ''http://x/2'') (write_to_file (Some ''http://x/2'') ?w)
        = write_to_file (Some ''http://x/2'') ?w"
    by blast
  with once show ?thesis
    by simp
qed

text \<open>
  C5 as stated fails for a URL typed with a blank behind it (the last line is compared
  after \<open>strip\<close>, the URL as it is), and for a file whose last line has no line feed:
  the second append stores another line.
\<close>

theorem frontier_append_counterexample:
  "links_file (write_to_file (Some ''http://x/1 '') fresh_world) = Some ''http://x/1 \<newline>''
   \<and> links_file (write_to_file (Some ''http://x/1 '') (write_to_file (Some ''http://x/1 '') fresh_world))
       = Some ''http://x/1 \<newline>http://x/1 \<newline>''
   \<and> links_file (write_to_file (Some ''b'') (fresh_world\<lparr>links_file := Some ''a''\<rparr>))
       = Some ''ab\<newline>''
   \<and> links_file (write_to_file (Some ''b'')
         (write_to_file (Some ''b'') (fresh_world\<lparr>links_file := Some ''a''\<rparr>)))
       = Some ''ab\<newline>b\<newline>''"
  by (simp add: write_to_file_def fresh_world_def readlines_def strip_def is_space_def
      LF_def CR_def)

section \<open>Reading the frontier file\<close>

text \<open>
  C10. When the frontier file exists, \<open>get_url\<close> neither prompts nor writes: it leaves
  the scraper and its environment as they are; and when every line of the file is blank
  it returns \<open>None\<close>.  So the prompt for the first URL is shown only when there is no
  file.
\<close>

theorem get_url_blank_file:
  assumes "links_file w = Some raw"
  shows "snd (get_url w) = w
         \<and> ((\<forall>l \<in> set (readlines raw). strip l = []) \<longrightarrow> fst (get_url w) = Inr None)"
  using assms by (auto simp: get_url_def Let_def filter_empty_conv)

theorem get_url_blank_file_witness:
  "map strip (readlines ''  \<newline>\<newline> '') = [[], [], []]
   \<and> get_url (fresh_world\<lparr>links_file := Some ''  \<newline>\<newline> ''\<rparr>)
       = (Inr None, fresh_world\<lparr>links_file := Some ''  \<newline>\<newline> ''\<rparr>)"
proof -
  let ?w = "fresh_world\<lparr>links_file := Some ''  \<newline>\<newline> ''\<rparr>"
  have lines: "map strip (readlines ''  \<newline>\<newline> '') = [[], [], []]"
    by (simp add: readlines_def strip_def is_space_def LF_def CR_def)
  have blank: "\<forall>l \<in> set (readlines ''  \<newline>\<newline> ''). strip l = []"
  proof
    fix l
    assume "l \<in> set (readlines ''  \<newline>\<newline> '')"
    then have "strip l \<in> set (map strip (readlines ''  \<newline>\<newline> ''))"
      by simp
    then show "strip l = []"
      unfolding lines by simp
  qed
  have "links_file ?w = Some ''  \<newline>\<newline> ''"
    by simp
  from get_url_blank_file [OF this] blank
  have "snd (get_url ?w) = ?w" "fst (get_url ?w) = Inr None"
    by simp_all
  then have "get_url ?w = (Inr None, ?w)"
    by (metis prod.collapse)
  with lines show ?thesis
    by simp
qed

section \<open>Escalation in the retry loop\<close>

subsection \<open>Counting the multiples of the retry threshold\<close>

lemma div_step:
  fixes r R :: int
  assumes "1 \<le> R"
  shows "r div R - (r - 1) div R = (if r mod R = 0 then 1 else 0)"
proof -
  define q m where "q = r div R" and "m = r mod R"
  have r: "r = m + R * q"
    by (simp add: q_def m_def)
  have m: "0 \<le> m" "m < R"
    using assms by (simp_all add: m_def)
  have R0: "R \<noteq> 0"
    using assms by simp
  show ?thesis
  proof (cases "m = 0")
    case True
    have "r - 1 = (R - 1) + R * (q - 1)"
      using r True by (simp add: algebra_simps)
    then have "(r - 1) div R = ((R - 1) + R * (q - 1)) div R"
      by (rule arg_cong)
    also have "\<dots> = (q - 1) + (R - 1) div R"
      using R0 by (rule div_mult_self2)
    also have "(R - 1) div R = 0"
      using assms by (simp add: div_pos_pos_trivial)
    finally show ?thesis
      using True by (simp add: q_def m_def)
  next
    case False
    have "r - 1 = (m - 1) + R * q"
      using r by simp
    then have "(r - 1) div R = ((m - 1) + R * q) div R"
      by (rule arg_cong)
    also have "\<dots> = q + (m - 1) div R"
      using R0 by (rule div_mult_self2)
    also have "(m - 1) div R = 0"
      using m False by (simp add: div_pos_pos_trivial)
    finally show ?thesis
      using False by (simp add: q_def m_def)
  qed
qed

lemma due_0: "due R r 0 = 0"
  by (simp add: due_def)

lemma due_Suc:
  assumes "1 \<le> R"
  shows "due R r (Suc k) = (if r mod R = 0 then 1 else 0) + due R (r + 1) k"
proof -
  have mono: "r div R \<le> (r + int k) div R"
    using assms by (intro zdiv_mono1) simp_all
  from div_step [OF assms, of r] mono show ?thesis
    by (auto simp: due_def algebra_simps split: if_splits)
qed

lemma due_from_one: "due R 1 k = nat (int k div R)"
  by (simp add: due_def)

subsection \<open>One round of the loop on a page without content\<close>

lemma attempt_transport:
  "attempt cfg Failed url i r w = (Continue url r, w\<lparr>log := log w @ [FailedToGet url]\<rparr>)"
  by (simp add: attempt_def)

lemma find_next_ok:
  "nb \<noteq> Some None \<Longrightarrow> \<exists>n. find_next_chapter_link d nb = Inr n"
  by (auto simp: find_next_chapter_link_def split: option.splits)

lemma attempt_quiet:
  assumes "1 \<le> max_retries cfg" "content_missing resp" "r mod max_retries cfg \<noteq> 0"
  shows "\<exists>w1. attempt cfg resp url i r w = (Continue url (r + 1), w1)
              \<and> stdin w1 = stdin w \<and> console w1 = console w"
proof -
  from assms(2) obtain pg where pg: "resp = Page pg" "text_div pg = None" "next_button pg \<noteq> Some None"
    by (auto simp: content_missing_def split: response.splits)
  from find_next_ok [OF pg(3)] obtain n where "find_next_chapter_link (domain_name cfg) (next_button pg) = Inr n"
    by blast
  with pg assms(1,3) show ?thesis
    by (simp add: attempt_def Let_def)
qed

lemma lower_y: "lower ''y'' = ''y''" and lower_c: "lower ''c'' = ''c''"
  by (simp_all add: lower_def lower_char_def upper_letters_def lower_letters_def)

lemma get_choice_typed:
  assumes "stdin w = typed d @ rest"
  shows "get_choice i w = (Inr (hd (typed d)), w\<lparr>stdin := tl (typed d) @ rest, console := console w @ [choice_prompt i]\<rparr>)"
  using assms by (cases d) (simp_all add: get_choice_def lower_y lower_c)

lemma attempt_decision:
  assumes "1 \<le> max_retries cfg" "content_missing resp" "r mod max_retries cfg = 0"
      and "stdin w = typed d @ rest"
  shows "\<exists>w1. attempt cfg resp url i r w = (Continue (url_after url [d]) (r + 1), w1)
              \<and> stdin w1 = rest \<and> console w1 = console w @ shown i d"
proof -
  from assms(2) obtain pg where pg: "resp = Page pg" "text_div pg = None" "next_button pg \<noteq> Some None"
    by (auto simp: content_missing_def split: response.splits)
  from find_next_ok [OF pg(3)] obtain n where n: "find_next_chapter_link (domain_name cfg) (next_button pg) = Inr n"
    by blast
  let ?w1 = "if r > 8 mod max_retries cfg then w\<lparr>log := log w @ [Retrying url r]\<rparr> else w"
  have "stdin ?w1 = typed d @ rest"
    using assms(4) by simp
  note gc = get_choice_typed [OF this, of i]
  show ?thesis
  proof (cases d)
    case KeepRetrying
    with pg n assms(1,3) gc show ?thesis
      by (simp add: attempt_def Let_def lower_y)
  next
    case (ReplaceUrl u)
    with pg n assms(1,3) gc show ?thesis
      by (simp add: attempt_def Let_def lower_c input_line_def)
  qed
qed

lemma scrape_loop_failing:
  assumes "1 \<le> max_retries cfg"
      and "\<forall>resp \<in> set resps. resp = Failed \<or> content_missing resp"
      and "stdin w = concat (map typed ds)"
      and "due (max_retries cfg) r (length (filter content_missing resps)) \<le> length ds"
  shows "\<exists>w'. scrape_loop cfg (map (\<lambda>resp u. resp) resps) url i r w
               = (Pending (url_after url (take (due (max_retries cfg) r (length (filter content_missing resps))) ds))
                    (r + int (length (filter content_missing resps))), w')
             \<and> stdin w' = concat (map typed (drop (due (max_retries cfg) r (length (filter content_missing resps))) ds))
             \<and> console w' = console w
                 @ concat (map (shown i) (take (due (max_retries cfg) r (length (filter content_missing resps))) ds))"
  using assms(2-)
proof (induction resps arbitrary: r w ds url)
  case Nil
  then show ?case by (simp add: due_0)
next
  case (Cons resp resps)
  let ?R = "max_retries cfg"
  let ?k = "length (filter content_missing resps)"
  from Cons.prems(1) have rest: "\<forall>resp \<in> set resps. resp = Failed \<or> content_missing resp"
    by simp
  show ?case
  proof (cases "resp = Failed")
    case True
    have cm: "\<not> content_missing resp" using True by (simp add: content_missing_def)
    let ?w1 = "w\<lparr>net := map (\<lambda>resp u. resp) resps, log := log w @ [FailedToGet url]\<rparr>"
    have s: "stdin ?w1 = concat (map typed ds)" using Cons.prems(2) by simp
    from Cons.prems(3) cm have d: "due ?R r ?k \<le> length ds" by simp
    from Cons.IH [OF rest s d, of url] True cm show ?thesis
      by (simp add: attempt_transport)
  next
    case False
    with Cons.prems(1) have cm: "content_missing resp" by simp
    show ?thesis
    proof (cases "r mod ?R = 0")
      case nz: False
      let ?w0 = "w\<lparr>net := map (\<lambda>resp u. resp) resps\<rparr>"
      from attempt_quiet [OF assms(1) cm nz, of url i ?w0] obtain w1 where
        w1: "attempt cfg resp url i r ?w0 = (Continue url (r + 1), w1)"
            "stdin w1 = stdin ?w0" "console w1 = console ?w0"
        by blast
      have s: "stdin w1 = concat (map typed ds)" using w1(2) Cons.prems(2) by simp
      have due: "due ?R r (Suc ?k) = due ?R (r + 1) ?k"
        using due_Suc [OF assms(1), of r ?k] nz by simp
      with Cons.prems(3) cm have d: "due ?R (r + 1) ?k \<le> length ds" by simp
      from Cons.IH [OF rest s d, of url] w1 cm due show ?thesis
        by (simp add: add.assoc)
    next
      case z: True
      have due: "due ?R r (Suc ?k) = Suc (due ?R (r + 1) ?k)"
        using due_Suc [OF assms(1), of r ?k] z by simp
      with Cons.prems(3) cm obtain d ds' where ds: "ds = d # ds'" and d: "due ?R (r + 1) ?k \<le> length ds'"
        by (cases ds) auto
      let ?w0 = "w\<lparr>net := map (\<lambda>resp u. resp) resps\<rparr>"
      have "stdin ?w0 = typed d @ concat (map typed ds')"
        using Cons.prems(2) ds by simp
      from attempt_decision [OF assms(1) cm z this, of url i] obtain w1 where
        w1: "attempt cfg resp url i r ?w0 = (Continue (url_after url [d]) (r + 1), w1)"
            "stdin w1 = concat (map typed ds')" "console w1 = console ?w0 @ shown i d"
        by blast
      have ua: "\<And>xs. url_after (url_after url [d]) xs = url_after url (d # xs)"
        by (cases d) simp_all
      from Cons.IH [OF rest w1(2) d, of "url_after url [d]"] w1 cm due ds ua show ?thesis
        by (simp add: add.assoc)
    qed
  qed
qed


text \<open>
  C6. Let the threshold be \<open>R \<ge> 1\<close>, let every answer of the web be a transport failure
  or a page without the content block, \<open>k\<close> of them pages, and let the operator keep
  the loop going at every decision (\<open>y\<close>, or \<open>c\<close> and a URL).  Then after these answers the
  loop is still running with retry counter \<open>1 + k\<close>: the counter started at 1 and went
  up once per page, not on transport failures.  Exactly \<open>k div R\<close> decisions have been
  taken from the operator and shown on the console.  As this holds after every number of
  answers, the decisions fall on the rounds whose counter is a multiple of \<open>R\<close>; for
  \<open>R > 1\<close> none is taken after a single failed attempt.
\<close>

theorem escalation_boundary:
  assumes "1 \<le> max_retries cfg"
      and "net w = map (\<lambda>resp u. resp) resps"
      and "\<forall>resp \<in> set resps. resp = Failed \<or> content_missing resp"
      and "k = length (filter content_missing resps)"
      and "D = nat (int k div max_retries cfg)"
      and "stdin w = concat (map typed ds)"
      and "D \<le> length ds"
  shows "fst (scrape_one_webpage cfg (Some url) i w) = Pending (url_after url (take D ds)) (1 + int k)
         \<and> stdin (snd (scrape_one_webpage cfg (Some url) i w)) = concat (map typed (drop D ds))
         \<and> console (snd (scrape_one_webpage cfg (Some url) i w))
             = console w @ concat (map (shown i) (take D ds))"
proof -
  have D: "D = due (max_retries cfg) 1 (length (filter content_missing resps))"
    using assms(4,5) by (simp add: due_from_one)
  from assms(7) have "due (max_retries cfg) 1 (length (filter content_missing resps)) \<le> length ds"
    unfolding D .
  from scrape_loop_failing [OF assms(1) assms(3) assms(6) this, of url i]
  show ?thesis
    using assms(2,4) D by (auto simp: scrape_one_webpage_def)
qed

theorem escalation_boundary_witness:
  "fst (scrape_one_webpage example_config (Some ''http://x/2'') 2
          (fresh_world\<lparr>net := map (\<lambda>resp u. resp)
                                [Page \<lparr>next_button = None, text_div = None\<rparr>, Failed,
                                 Page \<lparr>next_button = None, text_div = None\<rparr>,
                                 Page \<lparr>next_button = None, text_div = None\<rparr>, Failed,
                                 Page \<lparr>next_button = None, text_div = None\<rparr>],
                        stdin := [''y'']\<rparr>))
     = Pending ''http://x/2'' 5
   \<and> console (snd (scrape_one_webpage example_config (Some ''http://x/2'') 2
          (fresh_world\<lparr>net := map (\<lambda>resp u. resp)
                                [Page \<lparr>next_button = None, text_div = None\<rparr>, Failed,
                                 Page \<lparr>next_button = None, text_div = None\<rparr>,
                                 Page \<lparr>next_button = None, text_div = None\<rparr>, Failed,
                                 Page \<lparr>next_button = None, text_div = None\<rparr>],
                        stdin := [''y'']\<rparr>)))
     = [choice_prompt 2]
   \<and> console (snd (scrape_one_webpage example_config (Some ''http://x/2'') 2
          (fresh_world\<lparr>net := map (\<lambda>resp u. resp) [Page \<lparr>next_button = None, text_div = None\<rparr>]\<rparr>)))
     = []"
proof -
  let ?p = "Page \<lparr>next_button = None, text_div = None\<rparr>"
  let ?w = "fresh_world\<lparr>net := map (\<lambda>resp u. resp) [?p, Failed, ?p, ?p, Failed, ?p],
                        stdin := [''y'']\<rparr>"
  let ?v = "fresh_world\<lparr>net := map (\<lambda>resp u. resp) [?p]\<rparr>"
  have R: "1 \<le> max_retries example_config"
    by (simp add: example_config_def)
  have p: "content_missing ?p"
    by (simp add: content_missing_def)
  have a: "fst (scrape_one_webpage example_config (Some ''http://x/2'') 2 ?w)
             = Pending (url_after ''http://x/2'' (take 1 [KeepRetrying])) (1 + int 4)
           \<and> stdin (snd (scrape_one_webpage example_config (Some ''http://x/2'') 2 ?w))
             = concat (map typed (drop 1 [KeepRetrying]))
           \<and> console (snd (scrape_one_webpage example_config (Some ''http://x/2'') 2 ?w))
             = console ?w @ concat (map (shown 2) (take 1 [KeepRetrying]))"
    by (rule escalation_boundary [OF R, where resps = "[?p, Failed, ?p, ?p, Failed, ?p]"])
      (simp_all add: p content_missing_def example_config_def fresh_world_def)
  have b: "fst (scrape_one_webpage example_config (Some ''http://x/2'') 2 ?v)
             = Pending (url_after ''http://x/2'' (take 0 [])) (1 + int 1)
           \<and> stdin (snd (scrape_one_webpage example_config (Some ''http://x/2'') 2 ?v))
             = concat (map typed (drop 0 []))
           \<and> console (snd (scrape_one_webpage example_config (Some ''http://x/2'') 2 ?v))
             = console ?v @ concat (map (shown 2) (take 0 []))"
    by (rule escalation_boundary [OF R, where resps = "[?p]"])
      (simp_all add: p example_config_def fresh_world_def)
  from a b show ?thesis
    by (simp add: fresh_world_def)
qed

section \<open>End of content\<close>

text \<open>
  C9. For every index, \<open>scrape_one_webpage\<close> called without a URL returns
  \<open>(False, None)\<close> at once: it asks nothing of the web, the chapters harvested so far
  stay as they are, and only the log gets a line.  The batch loop stops on this result.
\<close>

theorem end_of_content:
  "scrape_one_webpage cfg None webpage_no w
     = (Done (False, None), w\<lparr>log := log w @ [NoMoreChapters webpage_no]\<rparr>)
   \<and> net (snd (scrape_one_webpage cfg None webpage_no w)) = net w
   \<and> chapters (snd (scrape_one_webpage cfg None webpage_no w)) = chapters w
   \<and> fst (batch_loop cfg (Suc k) webpage_no i None last_valid_url w)
       = Done (Some webpage_no, last_valid_url)"
  by (simp add: scrape_one_webpage_def)

section \<open>Skipping a chapter\<close>

text \<open>
  C1 fails on the code.  With threshold 3, a page that lacks the content block three
  times and the operator answering \<open>n\<close>, \<open>scrape_one_webpage\<close> does not return: the
  assignment to the unbound \<open>chapter\<close> raises \<open>UnboundLocalError\<close>.  No placeholder
  chapter is added and no next URL is handed back.
\<close>

theorem skip_placeholder_unbound:
  "scrape_one_webpage example_config (Some ''https://example.com/ch/2'') 2
     (fresh_world\<lparr>net := replicate 3 (\<lambda>u. Page \<lparr>next_button = Some (Some ''/ch/3''), text_div = None\<rparr>),
                   stdin := [''n'']\<rparr>)
   = (Raise UnboundLocalError,
      fresh_world\<lparr>console := [choice_prompt 2], log := [Retrying ''https://example.com/ch/2'' 3]\<rparr>)"
  by (simp add: scrape_one_webpage_def attempt_def example_config_def fresh_world_def
      find_next_chapter_link_def sublist_code(3) get_choice_def lower_def lower_char_def upper_letters_def lower_letters_def
      numeral_3_eq_3)

section \<open>The range reported by a batch\<close>

text \<open>
  C3 fails on the code when the batch stops early.  A batch of size 2 starts at index 1;
  the first page has content and no next link.  The second call of the fetcher gets no
  URL and stops the loop with \<open>i = 2\<close>.  One chapter has been harvested, the frontier
  file keeps its line, and the range reported is \<open>1-2\<close>, not \<open>1-1\<close>.
\<close>

theorem early_stop_range:
  "fst (scrape_worker example_config 2
          (fresh_world\<lparr>initial_url := Some ''https://example.com/ch/1'',
                        links_file := Some ''https://example.com/ch/1\<newline>'',
                        net := [\<lambda>u. Page \<lparr>next_button = None, text_div = Some ''<p>a</p><p>b</p>''\<rparr>]\<rparr>))
     = Done ()
   \<and> map title (chapters (snd (scrape_worker example_config 2
          (fresh_world\<lparr>initial_url := Some ''https://example.com/ch/1'',
                        links_file := Some ''https://example.com/ch/1\<newline>'',
                        net := [\<lambda>u. Page \<lparr>next_button = None, text_div = Some ''<p>a</p><p>b</p>''\<rparr>]\<rparr>))))
     = [''Chapter 1'']
   \<and> links_file (snd (scrape_worker example_config 2
          (fresh_world\<lparr>initial_url := Some ''https://example.com/ch/1'',
                        links_file := Some ''https://example.com/ch/1\<newline>'',
                        net := [\<lambda>u. Page \<lparr>next_button = None, text_div = Some ''<p>a</p><p>b</p>''\<rparr>]\<rparr>)))
     = Some ''https://example.com/ch/1\<newline>''
   \<and> output_file_path (snd (scrape_worker example_config 2
          (fresh_world\<lparr>initial_url := Some ''https://example.com/ch/1'',
                        links_file := Some ''https://example.com/ch/1\<newline>'',
                        net := [\<lambda>u. Page \<lparr>next_button = None, text_div = Some ''<p>a</p><p>b</p>''\<rparr>]\<rparr>)))
     = ''epub/N/1-2''"
  by (simp add: scrape_worker_def scrape_one_webpage_def attempt_def example_config_def fresh_world_def
      find_next_chapter_link_def initial_chapter_number_def get_last_chapter_scraped_def
      write_to_file_def readlines_def strip_def is_space_def LF_def CR_def
      config_ebook_path_def path_join_def batch_dir_name_def show_int_def show_nat.simps digit_char_def
      numeral_2_eq_2 Let_def)

section \<open>A fetch that ends in a failure\<close>

subsection \<open>What the fetcher and the batch loop leave on disk\<close>





lemma persisted_log [simp]: "persisted (w\<lparr>log := l\<rparr>) = persisted w"
  and persisted_net [simp]: "persisted (w\<lparr>net := n\<rparr>) = persisted w"
  and persisted_chapters [simp]: "persisted (w\<lparr>chapters := c\<rparr>) = persisted w"
  and persisted_book_items [simp]: "persisted (w\<lparr>book_items := b\<rparr>) = persisted w"
  by (simp_all add: persisted_def)





lemma batch_loop_binds:
  "batch_loop cfg k next_i i cur lv w = (Done (i', lv'), w') \<Longrightarrow> 0 < k \<or> i \<noteq> None \<Longrightarrow> i' \<noteq> None"
proof (induction k arbitrary: next_i i cur lv w)
  case 0
  then show ?case by simp
next
  case (Suc k)
  obtain o1 w1 where s: "scrape_one_webpage cfg cur next_i w = (o1, w1)"
    by (cases "scrape_one_webpage cfg cur next_i w")
  show ?case
  proof (cases o1)
    case (Done res)
    obtain more cur' where res: "res = (more, cur')" by (cases res)
    show ?thesis
    proof (cases more)
      case True
      with Suc.prems s Done res
      have "batch_loop cfg k (next_i + 1) (Some next_i) cur' (if cur' \<noteq> None then cur' else lv) w1 = (Done (i', lv'), w')"
        by (simp add: Let_def)
      from Suc.IH [OF this] show ?thesis by simp
    next
      case False
      with Suc.prems s Done res show ?thesis by (auto simp: Let_def)
    qed
  next
    case (Raise e)
    with Suc.prems s show ?thesis by auto
  next
    case (Pending u r)
    with Suc.prems s show ?thesis by auto
  qed
qed









section \<open>Cleaning twice\<close>

subsection \<open>The two removal passes on a text without forbidden patterns\<close>

lemma split_on_nonempty: "split_on sep s \<noteq> []"
  by (induction s) (auto split: list.splits)

lemma join_split_on: "join [sep] (split_on sep s) = s"
proof (induction s)
  case Nil
  then show ?case by simp
next
  case (Cons c cs)
  show ?case
  proof (cases "c = sep")
    case True
    obtain l ls where "split_on sep cs = l # ls"
      using split_on_nonempty [of sep cs] by (cases "split_on sep cs") auto
    with True Cons show ?thesis by simp
  next
    case False
    obtain l ls where sp: "split_on sep cs = l # ls"
      using split_on_nonempty [of sep cs] by (cases "split_on sep cs") auto
    with False Cons show ?thesis by (cases ls) auto
  qed
qed

lemma remove_pattern_absent:
  assumes "\<forall>line \<in> set (split_on LF data). \<not> sublist (lower match_string) (lower line)"
  shows "remove_pattern data match_string = data"
proof -
  from assms have "filter (\<lambda>line. \<not> sublist (lower match_string) (lower line)) (split_on LF data)
      = split_on LF data"
    by (simp add: filter_id_conv)
  then show ?thesis
    by (simp add: remove_pattern_def join_split_on)
qed

lemma remove_exclusions_absent:
  "\<forall>e \<in> set excl. e \<noteq> [] \<longrightarrow> \<not> sublist e data \<Longrightarrow> remove_exclusions data excl = data"
proof (induction data excl rule: remove_exclusions.induct)
  case (1 excl)
  then show ?case by simp
next
  case (2 c cs excl)
  from "2.prems" have tl: "\<forall>e \<in> set excl. e \<noteq> [] \<longrightarrow> \<not> sublist e cs"
    by (auto simp: sublist_Cons_right)
  have "find (\<lambda>e. e \<noteq> [] \<and> prefix e (c # cs)) excl = None"
  proof (rule ccontr)
    assume "find (\<lambda>e. e \<noteq> [] \<and> prefix e (c # cs)) excl \<noteq> None"
    then obtain e where "find (\<lambda>e. e \<noteq> [] \<and> prefix e (c # cs)) excl = Some e"
      by blast
    then have "e \<in> set excl" "e \<noteq> []" "prefix e (c # cs)"
      by (auto simp: find_Some_iff)
    with "2.prems" show False
      by (auto simp: sublist_Cons_right)
  qed
  with "2.IH"(1) tl show ?case by simp
qed

text \<open>
  C2, as the code has it.  Let \<open>y\<close> be a cleaned text that normalisation leaves as it is
  and that has no forbidden pattern.  Cleaning \<open>y\<close> again does what
  \<open>remove_last_p_tag\<close> does and nothing else: it takes out the last paragraph that is
  left.  When no paragraph is left (and the library prints \<open>y\<close> back as it reads it),
  the second pass changes nothing.
\<close>

theorem second_cleaning_pass:
  assumes "y = clean_text m x"
      and "nfkc m y = y"
      and "pattern_free y"
  shows "clean_text m y = render m (remove_last_p_tag m y)
         \<and> (find_all ''p'' (parse m y) = [] \<and> render m (parse m y) = y \<longrightarrow> clean_text m y = y)"
proof -
  from assms(3) have "remove_pattern y ''libread.com'' = y"
    by (intro remove_pattern_absent) (simp add: pattern_free_def)
  moreover from assms(3) have "remove_exclusions y exclusions = y"
    by (intro remove_exclusions_absent) (simp add: pattern_free_def)
  ultimately have "clean_text m y = render m (remove_last_p_tag m y)"
    using assms(2) by (simp add: clean_text_def)
  then show ?thesis
    by (simp add: remove_last_p_tag_def)
qed

theorem second_cleaning_pass_witness:
  "clean_text flat_markup ''intro<p>a</p>'' = ''intro''
   \<and> clean_text flat_markup ''intro'' = ''intro''"
proof -
  have once: "clean_text flat_markup ''intro<p>a</p>'' = ''intro''"
    by (simp add: clean_text_def flat_markup_def remove_pattern_def lower_def lower_char_def upper_letters_def lower_letters_def
      sublist_code(3) exclusions_def remove_last_p_tag_def find_all_def text_node_def LF_def Let_def)
  have first: "''intro'' = clean_text flat_markup ''intro<p>a</p>''"
    by (rule once [symmetric])
  have stable: "nfkc flat_markup ''intro'' = ''intro''"
    by (simp add: flat_markup_def)
  have free: "pattern_free ''intro''"
    by (simp add: pattern_free_def lower_def lower_char_def upper_letters_def lower_letters_def sublist_code(3) exclusions_def LF_def)
  have no_p: "find_all ''p'' (parse flat_markup ''intro'') = []
              \<and> render flat_markup (parse flat_markup ''intro'') = ''intro''"
    by (simp add: flat_markup_def find_all_def text_node_def)
  from second_cleaning_pass [OF first stable free] no_p
  have "clean_text flat_markup ''intro'' = ''intro''"
    by blast
  with once show ?thesis
    by (intro conjI)
qed

text \<open>
  C2 as stated fails.  The first pass over two paragraphs leaves the first one, a text
  in which neither removal pass finds anything; the second pass removes that
  paragraph too.
\<close>

theorem cleaner_idempotence_counterexample:
  "clean_text flat_markup ''<p>a</p><p>b</p>'' = ''<p>a</p>''
   \<and> remove_pattern ''<p>a</p>'' ''libread.com'' = ''<p>a</p>''
   \<and> remove_exclusions ''<p>a</p>'' exclusions = ''<p>a</p>''
   \<and> clean_text flat_markup ''<p>a</p>'' = []"
  by (simp add: clean_text_def flat_markup_def remove_pattern_def lower_def lower_char_def upper_letters_def lower_letters_def
      sublist_code(3) exclusions_def remove_last_p_tag_def find_all_def text_node_def LF_def Let_def)

end
